theory Spec2Isabelle
  imports Main
begin

section \<open>The browser session the page objects talk to\<close>

text \<open>
  The page objects of \<^verbatim>\<open>PageObject/login.py\<close> and the mixin of
  \<^verbatim>\<open>utils/browserUtils.py\<close> delegate all work to a Selenium driver. The driver
  and its elements are external: the model keeps a handle for each and records every
  call made through them, in order. What a call answers is given by an
  \<open>environment\<close>, which sees the calls made before it, so the browser may answer the
  same call differently at different moments. The environment also answers for the
  standard output of the test process: \<^verbatim>\<open>print\<close> writes the entry and returns, or
  raises (a closed or broken stream, a label the stream cannot encode) and writes nothing.
\<close>

text \<open>
  A raised Python exception. \<^verbatim>\<open>except Exception\<close> catches the instances of
  \<^verbatim>\<open>Exception\<close> and of its subclasses; \<^verbatim>\<open>KeyboardInterrupt\<close>,
  \<^verbatim>\<open>SystemExit\<close> and \<^verbatim>\<open>GeneratorExit\<close> derive from
  \<^verbatim>\<open>BaseException\<close> only. The string is the name of the class.
\<close>

datatype exc = Exception_instance string | BaseException_only string

fun is_Exception :: "exc \<Rightarrow> bool" where
  "is_Exception (Exception_instance n) = True"
| "is_Exception (BaseException_only n) = False"

text \<open>The locator strategies of Selenium's \<^verbatim>\<open>By\<close>.\<close>

datatype By = ID | XPATH | LINK_TEXT | PARTIAL_LINK_TEXT | NAME | TAG_NAME
  | CLASS_NAME | CSS_SELECTOR

type_synonym locator = "By \<times> string"

type_synonym handle = nat

type_synonym element = nat

datatype call =
    Find_element handle By string
  | Send_keys element string
  | Click element
  | Title handle
  | Value_of_css_property element string

record environment =
  on_find_element :: "call list \<Rightarrow> handle \<Rightarrow> locator \<Rightarrow> exc + element"
  on_send_keys :: "call list \<Rightarrow> element \<Rightarrow> string \<Rightarrow> exc + unit"
  on_click :: "call list \<Rightarrow> element \<Rightarrow> exc + unit"
  on_title :: "call list \<Rightarrow> handle \<Rightarrow> exc + string"
  on_value_of_css_property :: "call list \<Rightarrow> element \<Rightarrow> string \<Rightarrow> exc + string"
  on_print ::
    "call list \<Rightarrow> (string \<times> string option) list \<Rightarrow> string \<Rightarrow> string option \<Rightarrow> exc + unit"

text \<open>
  The state a method runs in: the calls made to the browser so far (oldest first) and
  what \<^verbatim>\<open>print\<close> has written, one entry per call of \<^verbatim>\<open>print(label, value)\<close>
  that returned; the value \<open>None\<close> is Python's \<^verbatim>\<open>None\<close>.
\<close>

record world =
  calls :: "call list"
  printed :: "(string \<times> string option) list"

definition find_element :: "environment \<Rightarrow> handle \<Rightarrow> locator \<Rightarrow> world \<Rightarrow> (exc + element) \<times> world" where
  "find_element env d loc w =
     (on_find_element env (calls w) d loc,
      w\<lparr>calls := calls w @ [Find_element d (fst loc) (snd loc)]\<rparr>)"

definition send_keys :: "environment \<Rightarrow> element \<Rightarrow> string \<Rightarrow> world \<Rightarrow> (exc + unit) \<times> world" where
  "send_keys env el txt w =
     (on_send_keys env (calls w) el txt, w\<lparr>calls := calls w @ [Send_keys el txt]\<rparr>)"

definition click :: "environment \<Rightarrow> element \<Rightarrow> world \<Rightarrow> (exc + unit) \<times> world" where
  "click env el w = (on_click env (calls w) el, w\<lparr>calls := calls w @ [Click el]\<rparr>)"

definition driver_title :: "environment \<Rightarrow> handle \<Rightarrow> world \<Rightarrow> (exc + string) \<times> world" where
  "driver_title env d w = (on_title env (calls w) d, w\<lparr>calls := calls w @ [Title d]\<rparr>)"

definition value_of_css_property ::
  "environment \<Rightarrow> element \<Rightarrow> string \<Rightarrow> world \<Rightarrow> (exc + string) \<times> world" where
  "value_of_css_property env el prop w =
     (on_value_of_css_property env (calls w) el prop,
      w\<lparr>calls := calls w @ [Value_of_css_property el prop]\<rparr>)"

definition print ::
  "environment \<Rightarrow> string \<Rightarrow> string option \<Rightarrow> world \<Rightarrow> (exc + unit) \<times> world" where
  "print env label val w =
     (case on_print env (calls w) (printed w) label val of
        Inl x \<Rightarrow> (Inl x, w)
      | Inr u \<Rightarrow> (Inr (), w\<lparr>printed := printed w @ [(label, val)]\<rparr>))"

section \<open>Strings\<close>

text \<open>
  \<open>str_replace_hyphen\<close> is \<^verbatim>\<open>s.replace("-", " ")\<close>; \<open>str_title\<close> is
  \<^verbatim>\<open>s.title()\<close> on ASCII text: a letter that follows a letter is lower-cased, any
  other letter is upper-cased, and every other character is kept and ends the run of
  letters. A string is a list of bytes, and a byte outside ASCII is kept and counts as no
  letter, which is not what Python does with a letter outside ASCII: what is proved of
  a derived label is proved of ASCII names, by hypothesis.
\<close>

definition ascii_lowercase :: string where
  "ascii_lowercase = ''abcdefghijklmnopqrstuvwxyz''"

definition ascii_uppercase :: string where
  "ascii_uppercase = ''ABCDEFGHIJKLMNOPQRSTUVWXYZ''"

definition is_cased :: "char \<Rightarrow> bool" where
  "is_cased c = (c \<in> set (ascii_lowercase @ ascii_uppercase))"

definition to_upper :: "char \<Rightarrow> char" where
  "to_upper c = (case map_of (zip ascii_lowercase ascii_uppercase) c of
                   Some u \<Rightarrow> u | None \<Rightarrow> c)"

definition to_lower :: "char \<Rightarrow> char" where
  "to_lower c = (case map_of (zip ascii_uppercase ascii_lowercase) c of
                   Some l \<Rightarrow> l | None \<Rightarrow> c)"

fun title_from :: "bool \<Rightarrow> string \<Rightarrow> string" where
  "title_from previous_is_cased [] = []"
| "title_from previous_is_cased (c # cs) =
     (if previous_is_cased then to_lower c else to_upper c) # title_from (is_cased c) cs"

definition str_title :: "string \<Rightarrow> string" where
  "str_title s = title_from False s"

definition str_replace_hyphen :: "string \<Rightarrow> string" where
  "str_replace_hyphen s = map (\<lambda>c. if c = CHR ''-'' then CHR '' '' else c) s"

section \<open>BrowserUtils\<close>

record browser_utils =
  driver :: handle

definition BrowserUtils_init :: "handle \<Rightarrow> browser_utils" where
  "BrowserUtils_init d = \<lparr>driver = d\<rparr>"

text \<open>
  A method takes the receiver and the world and gives back what it returns or raises
  (\<open>Inl\<close> the exception), the receiver as the body leaves it, and the new world.
\<close>

definition getPageTitle ::
  "environment \<Rightarrow> 'a browser_utils_scheme \<Rightarrow> world
     \<Rightarrow> (exc + string) \<times> 'a browser_utils_scheme \<times> world" where
  "getPageTitle env self w =
     (case driver_title env (driver self) w of (r, w1) \<Rightarrow> (r, self, w1))"

text \<open>
  A \<^verbatim>\<open>Dict[str, str]\<close> is an association list with distinct keys; the empty
  dictionary is falsy.
\<close>

type_synonym dict = "(string \<times> string) list"

text \<open>
  Line 23: \<^verbatim>\<open>label_map.get(prop) if label_map and prop in label_map else
  prop.replace("-", " ").title()\<close>.
\<close>

definition label_for :: "dict option \<Rightarrow> string \<Rightarrow> string" where
  "label_for label_map prop =
     (case label_map of
        None \<Rightarrow> str_title (str_replace_hyphen prop)
      | Some m \<Rightarrow>
          (if m \<noteq> [] then
             (case map_of m prop of
                Some l \<Rightarrow> l
              | None \<Rightarrow> str_title (str_replace_hyphen prop))
           else str_title (str_replace_hyphen prop)))"

text \<open>
  Lines 24 to 27: the value read, \<open>None\<close> when the read raised something that
  \<^verbatim>\<open>except Exception\<close> catches; any other exception leaves the \<^verbatim>\<open>try\<close>.
\<close>

definition try_value :: "exc + string \<Rightarrow> exc + string option" where
  "try_value r =
     (case r of
        Inr v \<Rightarrow> Inr (Some v)
      | Inl x \<Rightarrow> if is_Exception x then Inr None else Inl x)"

text \<open>
  Lines 22 to 28: the \<^verbatim>\<open>for\<close> loop over the properties. The \<^verbatim>\<open>print\<close> of
  line 28 is outside the \<^verbatim>\<open>try\<close>: what it raises leaves the loop.
\<close>

fun for_prop_in ::
  "environment \<Rightarrow> element \<Rightarrow> dict option \<Rightarrow> string list \<Rightarrow> world \<Rightarrow> (exc + unit) \<times> world" where
  "for_prop_in env el label_map [] w = (Inr (), w)"
| "for_prop_in env el label_map (prop # props) w =
     (case value_of_css_property env el prop w of
        (r, w1) \<Rightarrow>
          (case try_value r of
             Inl x \<Rightarrow> (Inl x, w1)
           | Inr val \<Rightarrow>
               (case print env (label_for label_map prop) val w1 of
                  (Inl x, w2) \<Rightarrow> (Inl x, w2)
                | (Inr u, w2) \<Rightarrow> for_prop_in env el label_map props w2)))"

text \<open>Lines 20 and 21: the list the loop runs over.\<close>

definition properties_or_default :: "string list option \<Rightarrow> string list" where
  "properties_or_default properties =
     (case properties of
        None \<Rightarrow> [''background-color'', ''color'', ''font-size'']
      | Some ps \<Rightarrow> ps)"

definition print_css_properties ::
  "environment \<Rightarrow> 'a browser_utils_scheme \<Rightarrow> element \<Rightarrow> string list option \<Rightarrow> dict option
     \<Rightarrow> world \<Rightarrow> (exc + unit) \<times> 'a browser_utils_scheme \<times> world" where
  "print_css_properties env self el properties label_map w =
     (let properties = properties_or_default properties
      in case for_prop_in env el label_map properties w of (r, w1) \<Rightarrow> (r, self, w1))"

section \<open>LoginPage\<close>

text \<open>
  Modelled from the spec: the class \<^verbatim>\<open>ShopPage\<close> of \<^verbatim>\<open>PageObject/shop.py\<close>,
  which is not among the sources. The spec says of it only that it is constructed from
  a driver handle and bound to that handle; constructing it makes no driver call.
\<close>

record shop_page =
  shop_driver :: handle

definition ShopPage_init :: "handle \<Rightarrow> shop_page" where
  "ShopPage_init d = \<lparr>shop_driver = d\<rparr>"

record login_page = browser_utils +
  username :: locator
  password :: locator
  submit :: locator

definition LoginPage_init :: "handle \<Rightarrow> login_page" where
  "LoginPage_init d =
     (let self = browser_utils.extend (BrowserUtils_init d)
                   (login_page.fields (ID, ''username'') (ID, ''password'') (ID, ''signInBtn''))
      in self\<lparr>driver := d\<rparr>)"

definition login ::
  "environment \<Rightarrow> login_page \<Rightarrow> string \<Rightarrow> string \<Rightarrow> world
     \<Rightarrow> (exc + shop_page) \<times> login_page \<times> world" where
  "login env self usr pwd w =
     (case find_element env (driver self) (username self) w of
        (Inl x, w1) \<Rightarrow> (Inl x, self, w1)
      | (Inr e1, w1) \<Rightarrow>
     (case send_keys env e1 usr w1 of
        (Inl x, w2) \<Rightarrow> (Inl x, self, w2)
      | (Inr _, w2) \<Rightarrow>
     (case find_element env (driver self) (password self) w2 of
        (Inl x, w3) \<Rightarrow> (Inl x, self, w3)
      | (Inr e2, w3) \<Rightarrow>
     (case send_keys env e2 pwd w3 of
        (Inl x, w4) \<Rightarrow> (Inl x, self, w4)
      | (Inr _, w4) \<Rightarrow>
     (case find_element env (driver self) (submit self) w4 of
        (Inl x, w5) \<Rightarrow> (Inl x, self, w5)
      | (Inr e3, w5) \<Rightarrow>
     (case click env e3 w5 of
        (Inl x, w6) \<Rightarrow> (Inl x, self, w6)
      | (Inr _, w6) \<Rightarrow>
          (let shop_page = ShopPage_init (driver self)
           in (Inr shop_page, self, w6))))))))"

section \<open>What the specification says, in the model's terms\<close>

text \<open>
  The label as the specification words it, written without the functions of the model.
  Hyphens become spaces: the parts of the name between hyphens, put together with one
  space where a hyphen stood. Title-casing is positional: a word is a group of
  consecutive letters, the letter that starts a word is upper case, the other letters
  are lower case, and what is not a letter stays. Letters are the ASCII letters, given
  by their codes; the specification is for names of ASCII characters.
\<close>

fun split_at :: "char \<Rightarrow> string \<Rightarrow> string list" where
  "split_at sep [] = [[]]"
| "split_at sep (c # cs) =
     (if c = sep then [] # split_at sep cs
      else (case split_at sep cs of w # ws \<Rightarrow> (c # w) # ws | [] \<Rightarrow> [[c]]))"

fun join_with :: "char \<Rightarrow> string list \<Rightarrow> string" where
  "join_with sep [] = []"
| "join_with sep [w] = w"
| "join_with sep (w # v # ws) = w @ sep # join_with sep (v # ws)"

definition is_ascii :: "char \<Rightarrow> bool" where
  "is_ascii c = (of_char c < (128::nat))"

definition is_letter :: "char \<Rightarrow> bool" where
  "is_letter c =
     ((65 \<le> (of_char c :: nat) \<and> (of_char c :: nat) \<le> 90)
      \<or> (97 \<le> (of_char c :: nat) \<and> (of_char c :: nat) \<le> 122))"

definition upper_case :: "char \<Rightarrow> char" where
  "upper_case c =
     (if 97 \<le> (of_char c :: nat) \<and> (of_char c :: nat) \<le> 122
      then char_of ((of_char c :: nat) - 32) else c)"

definition lower_case :: "char \<Rightarrow> char" where
  "lower_case c =
     (if 65 \<le> (of_char c :: nat) \<and> (of_char c :: nat) \<le> 90
      then char_of ((of_char c :: nat) + 32) else c)"

definition starts_word :: "string \<Rightarrow> nat \<Rightarrow> bool" where
  "starts_word s i = (case i of 0 \<Rightarrow> True | Suc j \<Rightarrow> \<not> is_letter (s ! j))"

definition title_cased :: "string \<Rightarrow> string" where
  "title_cased s =
     map (\<lambda>i. if starts_word s i then upper_case (s ! i) else lower_case (s ! i))
       [0..<length s]"

definition hyphens_to_spaces :: "string \<Rightarrow> string" where
  "hyphens_to_spaces prop = join_with (CHR '' '') (split_at (CHR ''-'') prop)"

text \<open>
  For a name made of letters and hyphens this is to capitalise each of the words that
  the hyphens separate: first letter upper case, the others lower case.
\<close>

definition capitalize :: "string \<Rightarrow> string" where
  "capitalize word = (case word of [] \<Rightarrow> [] | c # cs \<Rightarrow> upper_case c # map lower_case cs)"

definition capitalized_words :: "string \<Rightarrow> string" where
  "capitalized_words prop = join_with (CHR '' '') (map capitalize (split_at (CHR ''-'') prop))"

definition letters_and_hyphens :: "string \<Rightarrow> bool" where
  "letters_and_hyphens prop = list_all (\<lambda>c. is_letter c \<or> c = CHR ''-'') prop"

definition has_label :: "dict option \<Rightarrow> string \<Rightarrow> bool" where
  "has_label label_map prop =
     (case label_map of None \<Rightarrow> False | Some m \<Rightarrow> map_of m prop \<noteq> None)"

definition label_as_specified :: "dict option \<Rightarrow> string \<Rightarrow> string" where
  "label_as_specified label_map prop =
     (case label_map of
        None \<Rightarrow> title_cased (hyphens_to_spaces prop)
      | Some m \<Rightarrow>
          (case map_of m prop of
             Some l \<Rightarrow> l
           | None \<Rightarrow> title_cased (hyphens_to_spaces prop)))"

text \<open>
  The same label word by word: the words that spaces separate once the hyphens are
  spaces, each title-cased on its own by \<open>str_title\<close>.
\<close>

definition title_cased_words :: "string \<Rightarrow> string" where
  "title_cased_words prop =
     join_with (CHR '' '') (map str_title (split_at (CHR '' '') (str_replace_hyphen prop)))"

text \<open>What a run that took the world from \<open>w\<close> to \<open>w'\<close> printed, and which calls it made.\<close>

definition new_entries :: "world \<Rightarrow> world \<Rightarrow> (string \<times> string option) list" where
  "new_entries w w' = drop (length (printed w)) (printed w')"

definition new_calls :: "world \<Rightarrow> world \<Rightarrow> call list" where
  "new_calls w w' = drop (length (calls w)) (calls w')"

text \<open>The exception the browser answers a call with, after the calls \<open>h\<close>, if it raises.\<close>

fun raised :: "environment \<Rightarrow> call list \<Rightarrow> call \<Rightarrow> exc option" where
  "raised env h (Find_element d b v) =
     (case on_find_element env h d (b, v) of Inl x \<Rightarrow> Some x | Inr e \<Rightarrow> None)"
| "raised env h (Send_keys el txt) =
     (case on_send_keys env h el txt of Inl x \<Rightarrow> Some x | Inr u \<Rightarrow> None)"
| "raised env h (Click el) =
     (case on_click env h el of Inl x \<Rightarrow> Some x | Inr u \<Rightarrow> None)"
| "raised env h (Title d) =
     (case on_title env h d of Inl x \<Rightarrow> Some x | Inr t \<Rightarrow> None)"
| "raised env h (Value_of_css_property el prop) =
     (case on_value_of_css_property env h el prop of Inl x \<Rightarrow> Some x | Inr v \<Rightarrow> None)"

text \<open>
  The operations a test can apply to a login page, and a test as a sequence of them;
  what an operation returns or raises is dropped, the page object and the world go on.
\<close>

datatype operation =
    Login string string
  | GetPageTitle
  | PrintCssProperties element "string list option" "dict option"

fun invoke :: "environment \<Rightarrow> operation \<Rightarrow> login_page \<times> world \<Rightarrow> login_page \<times> world" where
  "invoke env (Login usr pwd) (self, w) = snd (login env self usr pwd w)"
| "invoke env GetPageTitle (self, w) = snd (getPageTitle env self w)"
| "invoke env (PrintCssProperties el properties label_map) (self, w) =
     snd (print_css_properties env self el properties label_map w)"

subsection \<open>Stub environments\<close>

definition fresh_world :: world where
  "fresh_world = \<lparr>calls = [], printed = []\<rparr>"

text \<open>A browser showing a login form, whose every call answers; every print returns.\<close>

definition stub_browser :: environment where
  "stub_browser =
     \<lparr>on_find_element = (\<lambda>h d loc.
          if loc = (ID, ''username'') then Inr 1
          else if loc = (ID, ''password'') then Inr 2
          else if loc = (ID, ''signInBtn'') then Inr 3
          else Inl (Exception_instance ''NoSuchElementException'')),
      on_send_keys = (\<lambda>h el txt. Inr ()),
      on_click = (\<lambda>h el. Inr ()),
      on_title = (\<lambda>h d. Inr ''ProtoCommerce''),
      on_value_of_css_property = (\<lambda>h el prop.
          if prop = ''background-color'' then Inr ''rgba(0, 0, 0, 0)''
          else if prop = ''color'' then Inr ''rgba(33, 37, 41, 1)''
          else if prop = ''font-size'' then Inr ''16px''
          else Inr []),
      on_print = (\<lambda>h out label val. Inr ())\<rparr>"

text \<open>The element has gone stale for one read: the read of \<open>color\<close> raises.\<close>

definition stale_browser :: environment where
  "stale_browser =
     stub_browser\<lparr>on_value_of_css_property := (\<lambda>h el prop.
        if prop = ''color'' then Inl (Exception_instance ''StaleElementReferenceException'')
        else on_value_of_css_property stub_browser h el prop)\<rparr>"

text \<open>The user presses Ctrl-C while \<open>color\<close> is read.\<close>

definition interrupted_browser :: environment where
  "interrupted_browser =
     stub_browser\<lparr>on_value_of_css_property := (\<lambda>h el prop.
        if prop = ''color'' then Inl (BaseException_only ''KeyboardInterrupt'')
        else on_value_of_css_property stub_browser h el prop)\<rparr>"

text \<open>The interpreter is told to exit while \<open>font-size\<close> is read.\<close>

definition exiting_browser :: environment where
  "exiting_browser =
     stub_browser\<lparr>on_value_of_css_property := (\<lambda>h el prop.
        if prop = ''font-size'' then Inl (BaseException_only ''SystemExit'')
        else on_value_of_css_property stub_browser h el prop)\<rparr>"

text \<open>
  The read of \<open>color\<close> raises as in \<open>stale_browser\<close>, and the reader of the standard
  output has gone away: every print raises.
\<close>

definition broken_pipe :: environment where
  "broken_pipe =
     stale_browser\<lparr>on_print := (\<lambda>h out label val.
        Inl (Exception_instance ''BrokenPipeError''))\<rparr>"

text \<open>A page without a password field.\<close>

definition no_password_browser :: environment where
  "no_password_browser =
     stub_browser\<lparr>on_find_element := (\<lambda>h d loc.
        if loc = (ID, ''password'') then Inl (Exception_instance ''NoSuchElementException'')
        else on_find_element stub_browser h d loc)\<rparr>"

section \<open>Properties\<close>

subsection \<open>Strings\<close>

lemma to_upper_upper_case: "to_upper c = upper_case c"
proof -
  have "\<forall>c\<in>set (Enum.enum :: char list). to_upper c = upper_case c"
    by code_simp
  then show ?thesis by (simp add: enum_UNIV)
qed

lemma to_lower_lower_case: "to_lower c = lower_case c"
proof -
  have "\<forall>c\<in>set (Enum.enum :: char list). to_lower c = lower_case c"
    by code_simp
  then show ?thesis by (simp add: enum_UNIV)
qed

lemma is_cased_is_letter: "is_cased c = is_letter c"
proof -
  have "\<forall>c\<in>set (Enum.enum :: char list). is_cased c = is_letter c"
    by code_simp
  then show ?thesis by (simp add: enum_UNIV)
qed

text \<open>The loop of \<open>title_from\<close> with its flag does what the positional rule says.\<close>

lemma title_from_positional:
  "title_from b s =
     map (\<lambda>i. if (case i of 0 \<Rightarrow> \<not> b | Suc j \<Rightarrow> \<not> is_letter (s ! j))
              then upper_case (s ! i) else lower_case (s ! i))
       [0..<length s]"
proof (induction s arbitrary: b)
  case Nil
  show ?case by simp
next
  case (Cons c cs)
  have "title_from b (c # cs) =
      (if b then lower_case c else upper_case c) # title_from (is_letter c) cs"
    by (simp add: to_upper_upper_case to_lower_lower_case is_cased_is_letter)
  also have "title_from (is_letter c) cs =
      map (\<lambda>i. if (case i of 0 \<Rightarrow> \<not> is_letter c | Suc j \<Rightarrow> \<not> is_letter (cs ! j))
               then upper_case (cs ! i) else lower_case (cs ! i))
        [0..<length cs]"
    by (rule Cons.IH)
  also have "\<dots> =
      map (\<lambda>i. if (case Suc i of 0 \<Rightarrow> \<not> b | Suc j \<Rightarrow> \<not> is_letter ((c # cs) ! j))
               then upper_case ((c # cs) ! Suc i) else lower_case ((c # cs) ! Suc i))
        [0..<length cs]"
    by (rule map_cong) (auto split: nat.splits)
  finally show ?case
    by (simp add: map_upt_Suc del: upt_Suc title_from.simps)
qed

lemma str_title_title_cased: "str_title s = title_cased s"
  unfolding str_title_def title_cased_def starts_word_def
  by (subst title_from_positional) (auto split: nat.splits)

lemma split_at_not_Nil: "split_at sep s \<noteq> []"
  by (induction s) (auto split: list.splits)

lemma str_replace_hyphen_split: "str_replace_hyphen s = hyphens_to_spaces s"
proof (induction s)
  case Nil
  show ?case by (simp add: str_replace_hyphen_def hyphens_to_spaces_def)
next
  case (Cons c cs)
  obtain w ws where sp: "split_at (CHR ''-'') cs = w # ws"
    using split_at_not_Nil by (cases "split_at (CHR ''-'') cs") auto
  show ?case
    using Cons.IH sp
    by (cases ws) (simp_all add: str_replace_hyphen_def hyphens_to_spaces_def)
qed

lemma title_from_hyphen_words:
  assumes "list_all (\<lambda>c. is_letter c \<or> c = CHR ''-'') s"
  shows "title_from b (str_replace_hyphen s) =
     (case split_at (CHR ''-'') s of
        w # ws \<Rightarrow>
          join_with (CHR '' '') ((if b then map lower_case w else capitalize w) # map capitalize ws)
      | [] \<Rightarrow> [])"
  using assms
proof (induction s arbitrary: b)
  case Nil
  show ?case by (simp add: str_replace_hyphen_def capitalize_def)
next
  case (Cons c cs)
  obtain w ws where sp: "split_at (CHR ''-'') cs = w # ws"
    using split_at_not_Nil by (cases "split_at (CHR ''-'') cs") auto
  have rest: "list_all (\<lambda>c. is_letter c \<or> c = CHR ''-'') cs"
    using Cons.prems by simp
  have step: "title_from b (str_replace_hyphen (c # cs)) =
      (if b then lower_case (if c = CHR ''-'' then CHR '' '' else c)
       else upper_case (if c = CHR ''-'' then CHR '' '' else c))
      # title_from (is_letter (if c = CHR ''-'' then CHR '' '' else c)) (str_replace_hyphen cs)"
    by (simp add: str_replace_hyphen_def to_upper_upper_case to_lower_lower_case
          is_cased_is_letter)
  show ?case
  proof (cases "c = CHR ''-''")
    case True
    have space: "lower_case (CHR '' '') = CHR '' ''" "upper_case (CHR '' '') = CHR '' ''"
      "\<not> is_letter (CHR '' '')"
      by (simp_all add: lower_case_def upper_case_def is_letter_def)
    show ?thesis
      by (subst step)
         (use True sp Cons.IH [OF rest, of False] in \<open>simp add: space capitalize_def\<close>)
  next
    case False
    then have "is_letter c" using Cons.prems by simp
    then show ?thesis
      by (subst step)
         (use False sp Cons.IH [OF rest, of True] in \<open>cases ws; simp add: capitalize_def\<close>)
  qed
qed

lemma str_title_capitalized_words:
  "letters_and_hyphens prop \<Longrightarrow> str_title (str_replace_hyphen prop) = capitalized_words prop"
proof -
  assume "letters_and_hyphens prop"
  then have l: "list_all (\<lambda>c. is_letter c \<or> c = CHR ''-'') prop"
    by (simp add: letters_and_hyphens_def)
  obtain w ws where sp: "split_at (CHR ''-'') prop = w # ws"
    using split_at_not_Nil by (cases "split_at (CHR ''-'') prop") auto
  show ?thesis
    unfolding str_title_def capitalized_words_def
    by (subst title_from_hyphen_words [OF l]) (simp add: sp)
qed

lemma label_for_as_specified: "label_for label_map prop = label_as_specified label_map prop"
  by (cases label_map)
     (auto simp: label_for_def label_as_specified_def str_title_title_cased
        str_replace_hyphen_split split: option.splits)

lemma label_for_unlabelled:
  "\<not> has_label label_map prop \<Longrightarrow> label_for label_map prop = str_title (str_replace_hyphen prop)"
  by (cases label_map) (auto simp: label_for_def has_label_def split: option.splits)

text \<open>Title-casing goes word by word.\<close>

lemma space_uncased:
  "\<not> is_cased (CHR '' '')" "to_upper (CHR '' '') = CHR '' ''" "to_lower (CHR '' '') = CHR '' ''"
  by (simp_all add: is_cased_def to_upper_def to_lower_def ascii_lowercase_def
        ascii_uppercase_def)

lemma title_from_split:
  "title_from b s =
     (case split_at (CHR '' '') s of
        w # ws \<Rightarrow> join_with (CHR '' '') (title_from b w # map (title_from False) ws)
      | [] \<Rightarrow> [])"
proof (induction s arbitrary: b)
  case Nil
  show ?case by simp
next
  case (Cons c cs)
  obtain w ws where sp: "split_at (CHR '' '') cs = w # ws"
    using split_at_not_Nil by (cases "split_at (CHR '' '') cs") auto
  show ?case
  proof (cases "c = CHR '' ''")
    case True
    then show ?thesis using sp Cons.IH[of False] by (simp add: space_uncased)
  next
    case False
    then show ?thesis using sp Cons.IH[of "is_cased c"] by (cases ws) simp_all
  qed
qed

lemma str_title_words: "str_title (str_replace_hyphen prop) = title_cased_words prop"
proof -
  obtain w ws where sp: "split_at (CHR '' '') (str_replace_hyphen prop) = w # ws"
    using split_at_not_Nil by (cases "split_at (CHR '' '') (str_replace_hyphen prop)") auto
  show ?thesis
    unfolding title_cased_words_def str_title_def
    by (subst title_from_split) (simp add: sp)
qed

text \<open>A word made of letters only is title-cased by capitalising it.\<close>

lemma title_from_letters: "\<forall>c\<in>set cs. is_cased c \<Longrightarrow> title_from True cs = map to_lower cs"
  by (induction cs) simp_all

lemma str_title_letters:
  "\<forall>x\<in>set (c # cs). is_cased x \<Longrightarrow> str_title (c # cs) = to_upper c # map to_lower cs"
  by (simp add: str_title_def title_from_letters)

subsection \<open>The loop of print_css_properties\<close>

lemma for_prop_in_Cons:
  "for_prop_in env el lm (p # ps) w =
     (case try_value (on_value_of_css_property env (calls w) el p) of
        Inl x \<Rightarrow> (Inl x, w\<lparr>calls := calls w @ [Value_of_css_property el p]\<rparr>)
      | Inr v \<Rightarrow>
          (case on_print env (calls w @ [Value_of_css_property el p]) (printed w)
                  (label_for lm p) v of
             Inl y \<Rightarrow> (Inl y, w\<lparr>calls := calls w @ [Value_of_css_property el p]\<rparr>)
           | Inr u \<Rightarrow>
               for_prop_in env el lm ps
                 (w\<lparr>calls := calls w @ [Value_of_css_property el p],
                    printed := printed w @ [(label_for lm p, v)]\<rparr>)))"
  by (simp add: value_of_css_property_def print_def split: sum.splits)

lemma for_prop_in_append:
  "for_prop_in env el lm (xs @ ys) w =
     (case for_prop_in env el lm xs w of
        (Inl x, w1) \<Rightarrow> (Inl x, w1)
      | (Inr u, w1) \<Rightarrow> for_prop_in env el lm ys w1)"
proof (induction xs arbitrary: w)
  case Nil
  show ?case by simp
next
  case (Cons p xs)
  show ?case
  proof (cases "try_value (on_value_of_css_property env (calls w) el p)")
    case (Inl x)
    then show ?thesis
      by (simp only: append_Cons for_prop_in_Cons sum.case prod.case)
  next
    case (Inr v)
    then show ?thesis
      by (cases "on_print env (calls w @ [Value_of_css_property el p]) (printed w)
                   (label_for lm p) v")
         (simp_all only: append_Cons for_prop_in_Cons Cons.IH sum.case prod.case)
  qed
qed

lemma for_prop_in_labels_cong:
  "(\<And>p. p \<in> set ps \<Longrightarrow> label_for lm p = label_for lm' p) \<Longrightarrow>
     for_prop_in env el lm ps w = for_prop_in env el lm' ps w"
proof (induction ps arbitrary: w)
  case Nil
  show ?case by simp
next
  case (Cons p ps)
  have "label_for lm p = label_for lm' p" using Cons.prems by simp
  moreover have "\<And>w1. for_prop_in env el lm ps w1 = for_prop_in env el lm' ps w1"
    using Cons.IH Cons.prems by simp
  ultimately show ?case
    by (simp only: for_prop_in_Cons)
qed

text \<open>
  What any run of the loop has done when it ends: it printed the entries of the first
  properties of the list, in order, each with the value its read gave; it read those
  properties in order, and one more when it ends by raising; it printed all when it
  returns.
\<close>

lemma for_prop_in_run:
  assumes "for_prop_in env el lm ps w = (r, w')"
  shows "\<exists>vs. length vs \<le> length ps
           \<and> printed w' = printed w @ zip (map (label_for lm) ps) vs
           \<and> calls w' = calls w @ map (Value_of_css_property el)
                 (take (case r of Inl x \<Rightarrow> Suc (length vs) | Inr u \<Rightarrow> length vs) ps)
           \<and> (\<forall>i<length vs.
                 try_value (on_value_of_css_property env
                   (calls w @ map (Value_of_css_property el) (take i ps)) el (ps ! i))
                 = Inr (vs ! i))
           \<and> (case r of Inl x \<Rightarrow> length vs < length ps | Inr u \<Rightarrow> length vs = length ps)"
  using assms
proof (induction ps arbitrary: w)
  case Nil
  then show ?case by auto
next
  case (Cons p ps)
  let ?w0 = "w\<lparr>calls := calls w @ [Value_of_css_property el p]\<rparr>"
  show ?case
  proof (cases "try_value (on_value_of_css_property env (calls w) el p)")
    case (Inl x)
    from Inl Cons.prems have "r = Inl x" "w' = ?w0"
      by (simp_all add: for_prop_in_Cons del: for_prop_in.simps)
    then show ?thesis by (intro exI[of _ "[]"]) simp
  next
    case (Inr v)
    show ?thesis
    proof (cases "on_print env (calls w @ [Value_of_css_property el p]) (printed w)
                    (label_for lm p) v")
      case (Inl y)
      with Inr Cons.prems have "r = Inl y" "w' = ?w0"
        by (simp_all add: for_prop_in_Cons del: for_prop_in.simps)
      then show ?thesis by (intro exI[of _ "[]"]) simp
    next
      case pr: (Inr u)
      let ?w1 = "?w0\<lparr>printed := printed w @ [(label_for lm p, v)]\<rparr>"
      let ?h = "\<lambda>i. calls ?w1 @ map (Value_of_css_property el) (take i ps)"
      from Inr pr Cons.prems have "for_prop_in env el lm ps ?w1 = (r, w')"
        by (simp add: for_prop_in_Cons del: for_prop_in.simps)
      from Cons.IH[OF this] obtain vs where vs: "length vs \<le> length ps"
        "printed w' = printed ?w1 @ zip (map (label_for lm) ps) vs"
        "calls w' = calls ?w1 @ map (Value_of_css_property el)
           (take (case r of Inl x \<Rightarrow> Suc (length vs) | Inr u \<Rightarrow> length vs) ps)"
        "\<forall>i<length vs.
           try_value (on_value_of_css_property env (?h i) el (ps ! i)) = Inr (vs ! i)"
        "case r of Inl x \<Rightarrow> length vs < length ps | Inr u \<Rightarrow> length vs = length ps"
        by blast
      have h: "\<And>i. ?h i = calls w @ map (Value_of_css_property el) (take (Suc i) (p # ps))"
        by simp
      have vals: "\<forall>i<length (v # vs).
          try_value (on_value_of_css_property env
            (calls w @ map (Value_of_css_property el) (take i (p # ps))) el ((p # ps) ! i))
          = Inr ((v # vs) ! i)"
      proof (intro allI impI)
        fix i assume "i < length (v # vs)"
        then show "try_value (on_value_of_css_property env
            (calls w @ map (Value_of_css_property el) (take i (p # ps))) el ((p # ps) ! i))
          = Inr ((v # vs) ! i)"
          using Inr vs(4) h by (cases i) (simp_all del: take_Suc_Cons)
      qed
      have cs: "calls w' = calls w @ map (Value_of_css_property el)
           (take (case r of Inl x \<Rightarrow> Suc (length (v # vs)) | Inr u \<Rightarrow> length (v # vs))
              (p # ps))"
        using vs(3) by (cases r) simp_all
      have last: "case r of Inl x \<Rightarrow> length (v # vs) < length (p # ps)
                   | Inr u \<Rightarrow> length (v # vs) = length (p # ps)"
        using vs(5) by (cases r) simp_all
      have "length (v # vs) \<le> length (p # ps)" using vs(1) by simp
      moreover have "printed w' = printed w @ zip (map (label_for lm) (p # ps)) (v # vs)"
        using vs(2) by simp
      ultimately show ?thesis using vals cs last by blast
    qed
  qed
qed

lemma for_prop_in_total:
  assumes "\<forall>p\<in>set ps. \<forall>h x. on_value_of_css_property env h el p = Inl x \<longrightarrow> is_Exception x"
    and "\<forall>p\<in>set ps. \<forall>h out v. on_print env h out (label_for lm p) v = Inr ()"
  shows "fst (for_prop_in env el lm ps w) = Inr ()"
  using assms
proof (induction ps arbitrary: w)
  case Nil
  show ?case by simp
next
  case (Cons p ps)
  have rest: "\<And>w1. fst (for_prop_in env el lm ps w1) = Inr ()"
    using Cons.IH Cons.prems by simp
  have pr: "\<And>h out v. on_print env h out (label_for lm p) v = Inr ()"
    using Cons.prems(2) by simp
  show ?case
  proof (cases "on_value_of_css_property env (calls w) el p")
    case (Inl y)
    then have "is_Exception y" using Cons.prems(1) by auto
    with Inl show ?thesis
      by (simp add: for_prop_in_Cons try_value_def rest pr del: for_prop_in.simps)
  next
    case (Inr v)
    then show ?thesis
      by (simp add: for_prop_in_Cons try_value_def rest pr del: for_prop_in.simps)
  qed
qed

subsection \<open>print_css_properties\<close>

lemma print_css_properties_run:
  assumes "print_css_properties env self el properties lm w = (r, self', w')"
  shows "for_prop_in env el lm (properties_or_default properties) w = (r, w')" and "self' = self"
  using assms by (auto simp: print_css_properties_def split: prod.splits)

lemma map_fst_zip_labels:
  "length vs \<le> length xs \<Longrightarrow> map fst (zip (map f xs) vs) = map f (take (length vs) xs)"
  by (simp add: map_fst_zip_take min_def take_map)

lemma new_entries_append: "printed w' = printed w @ es \<Longrightarrow> new_entries w w' = es"
  by (simp add: new_entries_def)

lemma new_calls_append: "calls w' = calls w @ cs \<Longrightarrow> new_calls w w' = cs"
  by (simp add: new_calls_def)

lemma print_css_properties_eq:
  "print_css_properties env self el properties lm w =
     (fst (for_prop_in env el lm (properties_or_default properties) w), self,
      snd (for_prop_in env el lm (properties_or_default properties) w))"
  by (simp add: print_css_properties_def split: prod.splits)

text \<open>The definitions a run at a concrete input unfolds.\<close>

lemmas evaluation =
  print_css_properties_def properties_or_default_def value_of_css_property_def
  try_value_def print_def label_for_def str_title_def str_replace_hyphen_def
  to_upper_def to_lower_def is_cased_def ascii_lowercase_def ascii_uppercase_def
  LoginPage_init_def BrowserUtils_init_def ShopPage_init_def browser_utils.extend_def
  login_page.fields_def fresh_world_def new_entries_def new_calls_def
  find_element_def send_keys_def click_def driver_title_def getPageTitle_def login_def

subsection \<open>Labels\<close>

text \<open>
  C1. Every entry that \<open>print_css_properties\<close> prints belongs to the property at its
  position in the list, and carries the label the specification gives for that
  property: the label the map gives to it when a map is given and has the property, and
  otherwise the property name (of ASCII characters) with every hyphen replaced by a
  space and each word title-cased. For a name made of letters and hyphens that is the
  words between the hyphens, each capitalised, with one space between them.
\<close>

theorem print_css_properties_label:
  assumes "print_css_properties env self el properties label_map w = (r, self', w')"
    and "i < length (new_entries w w')"
    and "has_label label_map (properties_or_default properties ! i)
           \<or> list_all is_ascii (properties_or_default properties ! i)"
  shows "i < length (properties_or_default properties)
       \<and> printed w' = printed w @ new_entries w w'
       \<and> fst (new_entries w w' ! i) =
           label_as_specified label_map (properties_or_default properties ! i)
       \<and> (letters_and_hyphens (properties_or_default properties ! i)
            \<and> \<not> has_label label_map (properties_or_default properties ! i) \<longrightarrow>
          fst (new_entries w w' ! i) =
            capitalized_words (properties_or_default properties ! i))"
proof -
  let ?ps = "properties_or_default properties"
  from for_prop_in_run[OF print_css_properties_run(1)[OF assms(1)]] obtain vs where
    len: "length vs \<le> length ?ps" and
    pr: "printed w' = printed w @ zip (map (label_for label_map) ?ps) vs"
    by blast
  have ne: "new_entries w w' = zip (map (label_for label_map) ?ps) vs"
    using pr by (rule new_entries_append)
  have i: "i < length vs" "i < length ?ps"
    using assms(2) len by (simp_all add: ne)
  then have l: "fst (new_entries w w' ! i) = label_for label_map (?ps ! i)"
    by (simp add: ne)
  have "fst (new_entries w w' ! i) = capitalized_words (?ps ! i)"
    if "letters_and_hyphens (?ps ! i)" "\<not> has_label label_map (?ps ! i)"
    using that l by (simp add: label_for_unlabelled str_title_capitalized_words)
  then show ?thesis
    using i pr ne l by (simp add: label_for_as_specified)
qed

theorem print_css_properties_label_witness:
  "print_css_properties stub_browser (LoginPage_init 0) 7
      (Some [''background-color'', ''color'', ''font-size'', ''BORDER-top''])
      (Some [(''color'', ''Text Color'')]) fresh_world =
     (Inr (), LoginPage_init 0,
      \<lparr>calls = [Value_of_css_property 7 ''background-color'',
                Value_of_css_property 7 ''color'', Value_of_css_property 7 ''font-size'',
                Value_of_css_property 7 ''BORDER-top''],
       printed = [(''Background Color'', Some ''rgba(0, 0, 0, 0)''),
                  (''Text Color'', Some ''rgba(33, 37, 41, 1)''),
                  (''Font Size'', Some ''16px''),
                  (''Border Top'', Some [])]\<rparr>)
   \<and> has_label (Some [(''color'', ''Text Color'')]) ''color''
   \<and> label_as_specified (Some [(''color'', ''Text Color'')]) ''color'' = ''Text Color''
   \<and> list_all is_ascii ''background-color''
   \<and> label_as_specified (Some [(''color'', ''Text Color'')]) ''background-color'' =
       ''Background Color''
   \<and> list_all is_ascii ''font-size''
   \<and> label_as_specified (Some [(''color'', ''Text Color'')]) ''font-size'' = ''Font Size''
   \<and> list_all is_ascii ''BORDER-top''
   \<and> label_as_specified (Some [(''color'', ''Text Color'')]) ''BORDER-top'' = ''Border Top''
   \<and> letters_and_hyphens ''BORDER-top''
   \<and> \<not> has_label (Some [(''color'', ''Text Color'')]) ''BORDER-top''
   \<and> capitalized_words ''BORDER-top'' = ''Border Top''"
proof -
  let ?ps = "[''background-color'', ''color'', ''font-size'', ''BORDER-top'']"
  let ?m = "Some [(''color'', ''Text Color'')]"
  let ?w' = "\<lparr>calls = [Value_of_css_property 7 ''background-color'',
                Value_of_css_property 7 ''color'', Value_of_css_property 7 ''font-size'',
                Value_of_css_property 7 ''BORDER-top''],
       printed = [(''Background Color'', Some ''rgba(0, 0, 0, 0)''),
                  (''Text Color'', Some ''rgba(33, 37, 41, 1)''),
                  (''Font Size'', Some ''16px''),
                  (''Border Top'', Some [])]\<rparr>"
  have run: "print_css_properties stub_browser (LoginPage_init 0) 7 (Some ?ps) ?m fresh_world =
      (Inr (), LoginPage_init 0, ?w')"
    by (simp add: evaluation stub_browser_def)
  have n: "0 < length (new_entries fresh_world ?w')" "1 < length (new_entries fresh_world ?w')"
    "2 < length (new_entries fresh_world ?w')" "3 < length (new_entries fresh_world ?w')"
    by (simp_all add: new_entries_def fresh_world_def)
  have mapped: "has_label ?m ''color''"
    by (simp add: has_label_def)
  have ascii: "list_all is_ascii ''background-color''" "list_all is_ascii ''font-size''"
    "list_all is_ascii ''BORDER-top''"
    by (simp_all add: is_ascii_def)
  have p: "properties_or_default (Some ?ps) ! 0 = ''background-color''"
    "properties_or_default (Some ?ps) ! 1 = ''color''"
    "properties_or_default (Some ?ps) ! 2 = ''font-size''"
    "properties_or_default (Some ?ps) ! 3 = ''BORDER-top''"
    by (simp_all add: properties_or_default_def)
  have e: "fst (new_entries fresh_world ?w' ! 0) = ''Background Color''"
    "fst (new_entries fresh_world ?w' ! 1) = ''Text Color''"
    "fst (new_entries fresh_world ?w' ! 2) = ''Font Size''"
    "fst (new_entries fresh_world ?w' ! 3) = ''Border Top''"
    by (simp_all add: new_entries_def fresh_world_def)
  have h: "has_label ?m (properties_or_default (Some ?ps) ! 0)
        \<or> list_all is_ascii (properties_or_default (Some ?ps) ! 0)"
    "has_label ?m (properties_or_default (Some ?ps) ! 1)
        \<or> list_all is_ascii (properties_or_default (Some ?ps) ! 1)"
    "has_label ?m (properties_or_default (Some ?ps) ! 2)
        \<or> list_all is_ascii (properties_or_default (Some ?ps) ! 2)"
    "has_label ?m (properties_or_default (Some ?ps) ! 3)
        \<or> list_all is_ascii (properties_or_default (Some ?ps) ! 3)"
    using mapped ascii by (simp_all only: p) simp_all
  have words: "letters_and_hyphens ''BORDER-top''" "\<not> has_label ?m ''BORDER-top''"
    by (simp_all add: letters_and_hyphens_def is_letter_def has_label_def)
  note t0 = print_css_properties_label [OF run n(1) h(1), unfolded p e]
  note t1 = print_css_properties_label [OF run n(2) h(2), unfolded p e]
  note t2 = print_css_properties_label [OF run n(3) h(3), unfolded p e]
  note t3 = print_css_properties_label [OF run n(4) h(4), unfolded p e]
  have "label_as_specified ?m ''background-color'' = ''Background Color''"
    by (rule t0 [THEN conjunct2, THEN conjunct2, THEN conjunct1, symmetric])
  moreover have "label_as_specified ?m ''color'' = ''Text Color''"
    by (rule t1 [THEN conjunct2, THEN conjunct2, THEN conjunct1, symmetric])
  moreover have "label_as_specified ?m ''font-size'' = ''Font Size''"
    by (rule t2 [THEN conjunct2, THEN conjunct2, THEN conjunct1, symmetric])
  moreover have "label_as_specified ?m ''BORDER-top'' = ''Border Top''"
    by (rule t3 [THEN conjunct2, THEN conjunct2, THEN conjunct1, symmetric])
  moreover have "capitalized_words ''BORDER-top'' = ''Border Top''"
    by (rule t3 [THEN conjunct2, THEN conjunct2, THEN conjunct2, THEN mp,
          OF conjI [OF words], symmetric])
  ultimately show ?thesis
    using run mapped ascii words by simp
qed

subsection \<open>Exceptions\<close>

text \<open>
  C2, as amended. When the loop has printed the properties before \<open>p\<close> and the read of
  \<open>p\<close> raises \<open>x\<close>: if \<open>x\<close> is an instance of \<^verbatim>\<open>Exception\<close>, the method prints the
  entry of \<open>p\<close> with the value \<open>None\<close> and, when that print returns, goes on with the
  properties after \<open>p\<close> exactly as a run on them from that state (when the print raises,
  what it raises ends the call); if \<open>x\<close> is not an instance of \<^verbatim>\<open>Exception\<close>, the
  call ends by raising \<open>x\<close>, with no entry for \<open>p\<close> and no read after it.
\<close>

theorem print_css_properties_when_read_raises:
  assumes "print_css_properties env self el (Some pre) label_map w = (Inr (), self', w1)"
    and "on_value_of_css_property env (calls w1) el p = Inl x"
  shows "print_css_properties env self el (Some (pre @ p # post)) label_map w =
           (if is_Exception x then
              (case on_print env (calls w1 @ [Value_of_css_property el p]) (printed w1)
                      (label_for label_map p) None of
                 Inl y \<Rightarrow> (Inl y, self, w1\<lparr>calls := calls w1 @ [Value_of_css_property el p]\<rparr>)
               | Inr u \<Rightarrow>
                   print_css_properties env self el (Some post) label_map
                     (w1\<lparr>calls := calls w1 @ [Value_of_css_property el p],
                         printed := printed w1 @ [(label_for label_map p, None)]\<rparr>))
            else (Inl x, self, w1\<lparr>calls := calls w1 @ [Value_of_css_property el p]\<rparr>))"
proof -
  have pre: "for_prop_in env el label_map pre w = (Inr (), w1)"
    using print_css_properties_run(1)[OF assms(1)] by (simp add: properties_or_default_def)
  have "for_prop_in env el label_map (pre @ p # post) w =
      for_prop_in env el label_map (p # post) w1"
    by (simp only: for_prop_in_append pre prod.case sum.case)
  then show ?thesis
    using assms(2)
    by (simp add: print_css_properties_eq properties_or_default_def for_prop_in_Cons
          try_value_def del: for_prop_in.simps split: sum.splits)
qed

theorem print_css_properties_when_read_raises_witness:
  "print_css_properties stale_browser (LoginPage_init 0) 7 (Some [''background-color''])
      None fresh_world =
     (Inr (), LoginPage_init 0,
      \<lparr>calls = [Value_of_css_property 7 ''background-color''],
       printed = [(''Background Color'', Some ''rgba(0, 0, 0, 0)'')]\<rparr>)
   \<and> on_value_of_css_property stale_browser [Value_of_css_property 7 ''background-color'']
       7 ''color'' = Inl (Exception_instance ''StaleElementReferenceException'')
   \<and> print_css_properties stale_browser (LoginPage_init 0) 7
       (Some [''background-color'', ''color'', ''font-size'']) None fresh_world =
     (Inr (), LoginPage_init 0,
      \<lparr>calls = [Value_of_css_property 7 ''background-color'',
                Value_of_css_property 7 ''color'', Value_of_css_property 7 ''font-size''],
       printed = [(''Background Color'', Some ''rgba(0, 0, 0, 0)''), (''Color'', None),
                  (''Font Size'', Some ''16px'')]\<rparr>)
   \<and> print_css_properties interrupted_browser (LoginPage_init 0) 7 (Some [''background-color''])
      None fresh_world =
     (Inr (), LoginPage_init 0,
      \<lparr>calls = [Value_of_css_property 7 ''background-color''],
       printed = [(''Background Color'', Some ''rgba(0, 0, 0, 0)'')]\<rparr>)
   \<and> on_value_of_css_property interrupted_browser
       [Value_of_css_property 7 ''background-color''] 7 ''color'' =
       Inl (BaseException_only ''KeyboardInterrupt'')
   \<and> print_css_properties interrupted_browser (LoginPage_init 0) 7
       (Some [''background-color'', ''color'', ''font-size'']) None fresh_world =
     (Inl (BaseException_only ''KeyboardInterrupt''), LoginPage_init 0,
      \<lparr>calls = [Value_of_css_property 7 ''background-color'',
                Value_of_css_property 7 ''color''],
       printed = [(''Background Color'', Some ''rgba(0, 0, 0, 0)'')]\<rparr>)"
proof -
  let ?w1 = "\<lparr>calls = [Value_of_css_property 7 ''background-color''],
       printed = [(''Background Color'', Some ''rgba(0, 0, 0, 0)'')]\<rparr>"
  have run: "print_css_properties stale_browser (LoginPage_init 0) 7
      (Some [''background-color'']) None fresh_world = (Inr (), LoginPage_init 0, ?w1)"
    by (simp add: evaluation stale_browser_def stub_browser_def)
  have raise: "on_value_of_css_property stale_browser (calls ?w1) 7 ''color'' =
      Inl (Exception_instance ''StaleElementReferenceException'')"
    by (simp add: stale_browser_def)
  have run': "print_css_properties interrupted_browser (LoginPage_init 0) 7
      (Some [''background-color'']) None fresh_world = (Inr (), LoginPage_init 0, ?w1)"
    by (simp add: evaluation interrupted_browser_def stub_browser_def)
  have raise': "on_value_of_css_property interrupted_browser (calls ?w1) 7 ''color'' =
      Inl (BaseException_only ''KeyboardInterrupt'')"
    by (simp add: interrupted_browser_def)
  from print_css_properties_when_read_raises [OF run raise, of "[''font-size'']"]
    print_css_properties_when_read_raises [OF run' raise', of "[''font-size'']"]
  show ?thesis
    using run raise run' raise'
    by (simp add: evaluation stale_browser_def interrupted_browser_def stub_browser_def)
qed

text \<open>
  C2, as stated, fails. \<^verbatim>\<open>except Exception\<close> does not catch a
  \<^verbatim>\<open>KeyboardInterrupt\<close>: raised by the read of \<open>color\<close>, it reaches the caller, no
  entry is printed for \<open>color\<close> and \<open>font-size\<close> is never read. And the \<^verbatim>\<open>print\<close> of
  line 28 is outside the \<^verbatim>\<open>try\<close>: when the read of \<open>color\<close> raises a caught exception
  and the print of its entry raises, \<open>font-size\<close> is never read either.
\<close>

theorem print_css_properties_interrupt_propagates:
  "on_value_of_css_property interrupted_browser [] 7 ''color'' =
     Inl (BaseException_only ''KeyboardInterrupt'')
   \<and> print_css_properties interrupted_browser (LoginPage_init 0) 7
       (Some [''color'', ''font-size'']) None fresh_world =
     (Inl (BaseException_only ''KeyboardInterrupt''), LoginPage_init 0,
      \<lparr>calls = [Value_of_css_property 7 ''color''], printed = []\<rparr>)
   \<and> on_value_of_css_property broken_pipe [] 7 ''color'' =
     Inl (Exception_instance ''StaleElementReferenceException'')
   \<and> print_css_properties broken_pipe (LoginPage_init 0) 7
       (Some [''color'', ''font-size'']) None fresh_world =
     (Inl (Exception_instance ''BrokenPipeError''), LoginPage_init 0,
      \<lparr>calls = [Value_of_css_property 7 ''color''], printed = []\<rparr>)"
  by (simp add: evaluation interrupted_browser_def broken_pipe_def stale_browser_def
        stub_browser_def)

subsection \<open>One entry for each property\<close>

text \<open>
  C3, as amended. When no read of a property of the list raises anything but instances
  of \<^verbatim>\<open>Exception\<close> and no print of an entry raises, the method returns
  \<^verbatim>\<open>None\<close> and has printed exactly one entry for each property of the list, in the
  order of the list: entry \<open>i\<close> has the label of property \<open>i\<close> and the value its read gave
  (\<open>None\<close> when the read raised), and the reads were made in that order.
\<close>

theorem print_css_properties_one_entry_per_property:
  assumes "\<forall>p\<in>set (properties_or_default properties).
             \<forall>h x. on_value_of_css_property env h el p = Inl x \<longrightarrow> is_Exception x"
    and "\<forall>p\<in>set (properties_or_default properties).
             \<forall>h out v. on_print env h out (label_for label_map p) v = Inr ()"
    and "print_css_properties env self el properties label_map w = (r, self', w')"
  shows "r = Inr ()
       \<and> printed w' = printed w @ new_entries w w'
       \<and> length (new_entries w w') = length (properties_or_default properties)
       \<and> map fst (new_entries w w') =
           map (label_for label_map) (properties_or_default properties)
       \<and> (\<forall>i<length (properties_or_default properties).
             try_value (on_value_of_css_property env
               (calls w @ map (Value_of_css_property el)
                  (take i (properties_or_default properties)))
               el (properties_or_default properties ! i))
             = Inr (snd (new_entries w w' ! i)))
       \<and> calls w' =
           calls w @ map (Value_of_css_property el) (properties_or_default properties)"
proof -
  let ?ps = "properties_or_default properties"
  have run: "for_prop_in env el label_map ?ps w = (r, w')"
    using assms(3) by (rule print_css_properties_run(1))
  have r: "r = Inr ()"
    using for_prop_in_total[OF assms(1,2), of w] run by simp
  from for_prop_in_run[OF run] r obtain vs where
    len: "length vs = length ?ps" and
    pr: "printed w' = printed w @ zip (map (label_for label_map) ?ps) vs" and
    cs': "calls w' = calls w @ map (Value_of_css_property el) (take (length vs) ?ps)" and
    vals: "\<forall>i<length vs. try_value (on_value_of_css_property env
             (calls w @ map (Value_of_css_property el) (take i ?ps)) el (?ps ! i)) = Inr (vs ! i)"
    by auto
  have ne: "new_entries w w' = zip (map (label_for label_map) ?ps) vs"
    using pr by (rule new_entries_append)
  have cs: "calls w' = calls w @ map (Value_of_css_property el) ?ps"
    using cs' len by simp
  have "map fst (new_entries w w') = map (label_for label_map) ?ps"
    using len ne by simp
  moreover have "\<forall>i<length ?ps. snd (new_entries w w' ! i) = vs ! i"
    using len ne by simp
  ultimately show ?thesis using r pr ne len vals cs by simp
qed

theorem print_css_properties_one_entry_per_property_witness:
  "print_css_properties stale_browser (LoginPage_init 0) 7 (Some [''color'', ''font-size''])
      (Some [(''color'', ''Text Color'')]) fresh_world =
     (Inr (), LoginPage_init 0,
      \<lparr>calls = [Value_of_css_property 7 ''color'', Value_of_css_property 7 ''font-size''],
       printed = [(''Text Color'', None), (''Font Size'', Some ''16px'')]\<rparr>)
   \<and> length (new_entries fresh_world
        \<lparr>calls = [Value_of_css_property 7 ''color'', Value_of_css_property 7 ''font-size''],
         printed = [(''Text Color'', None), (''Font Size'', Some ''16px'')]\<rparr>) = 2"
proof -
  let ?w' = "\<lparr>calls = [Value_of_css_property 7 ''color'', Value_of_css_property 7 ''font-size''],
       printed = [(''Text Color'', None), (''Font Size'', Some ''16px'')]\<rparr>"
  have caught: "\<forall>p\<in>set (properties_or_default (Some [''color'', ''font-size''])).
      \<forall>h x. on_value_of_css_property stale_browser h 7 p = Inl x \<longrightarrow> is_Exception x"
    by (auto simp: properties_or_default_def stale_browser_def stub_browser_def)
  have prints: "\<forall>p\<in>set (properties_or_default (Some [''color'', ''font-size''])).
      \<forall>h out v. on_print stale_browser h out
        (label_for (Some [(''color'', ''Text Color'')]) p) v = Inr ()"
    by (simp add: stale_browser_def stub_browser_def)
  have run: "print_css_properties stale_browser (LoginPage_init 0) 7
      (Some [''color'', ''font-size'']) (Some [(''color'', ''Text Color'')]) fresh_world =
      (Inr (), LoginPage_init 0, ?w')"
    by (simp add: evaluation stale_browser_def stub_browser_def)
  from print_css_properties_one_entry_per_property [OF caught prints run]
  have "length (new_entries fresh_world ?w') =
      length (properties_or_default (Some [''color'', ''font-size'']))"
    by blast
  then show ?thesis using run by (simp add: properties_or_default_def)
qed

text \<open>
  C3, as stated, fails, for a supplied list and a supplied label map. A
  \<^verbatim>\<open>SystemExit\<close> raised by the read of \<open>font-size\<close> ends the run after two entries
  for three properties, and a print that raises ends the run on one property with no
  entry; in both the method raises and returns nothing.
\<close>

theorem print_css_properties_exit_truncates:
  "print_css_properties exiting_browser (LoginPage_init 0) 7
      (Some [''background-color'', ''color'', ''font-size''])
      (Some [(''color'', ''Text Color'')]) fresh_world =
     (Inl (BaseException_only ''SystemExit''), LoginPage_init 0,
      \<lparr>calls = [Value_of_css_property 7 ''background-color'',
                Value_of_css_property 7 ''color'', Value_of_css_property 7 ''font-size''],
       printed = [(''Background Color'', Some ''rgba(0, 0, 0, 0)''),
                  (''Text Color'', Some ''rgba(33, 37, 41, 1)'')]\<rparr>)
   \<and> length (printed (snd (snd (print_css_properties exiting_browser (LoginPage_init 0) 7
         (Some [''background-color'', ''color'', ''font-size''])
         (Some [(''color'', ''Text Color'')]) fresh_world))))
       \<noteq> length [''background-color'', ''color'', ''font-size'']
   \<and> print_css_properties broken_pipe (LoginPage_init 0) 7 (Some [''font-size''])
      (Some [(''color'', ''Text Color'')]) fresh_world =
     (Inl (Exception_instance ''BrokenPipeError''), LoginPage_init 0,
      \<lparr>calls = [Value_of_css_property 7 ''font-size''], printed = []\<rparr>)"
  by (simp add: evaluation exiting_browser_def broken_pipe_def stale_browser_def
        stub_browser_def)

subsection \<open>The property list\<close>

text \<open>
  C4. Called without a property list, the method works on \<open>background-color\<close>,
  \<open>color\<close>, \<open>font-size\<close>, in that order: it reads at least the first of them, the reads
  it makes are reads of these three in this order, the entries it prints carry their
  labels in this order, and when it returns it has read and printed all three. It does
  what a call with that very list does.
\<close>

theorem print_css_properties_default_list:
  assumes "print_css_properties env self el None label_map w = (r, self', w')"
  shows "properties_or_default None = [''background-color'', ''color'', ''font-size'']
       \<and> calls w' = calls w @ new_calls w w'
       \<and> 1 \<le> length (new_calls w w')
       \<and> new_calls w w' =
           map (Value_of_css_property el)
             (take (length (new_calls w w')) [''background-color'', ''color'', ''font-size''])
       \<and> printed w' = printed w @ new_entries w w'
       \<and> map fst (new_entries w w') =
           map (label_as_specified label_map)
             (take (length (new_entries w w')) [''background-color'', ''color'', ''font-size''])
       \<and> (case r of
             Inr u \<Rightarrow> length (new_calls w w') = 3 \<and> length (new_entries w w') = 3
           | Inl x \<Rightarrow> length (new_calls w w') = Suc (length (new_entries w w'))
                       \<and> length (new_entries w w') < 3)
       \<and> print_css_properties env self el
           (Some [''background-color'', ''color'', ''font-size'']) label_map w = (r, self', w')"
proof -
  let ?ps = "[''background-color'', ''color'', ''font-size'']"
  have d: "properties_or_default None = ?ps"
    by (simp add: properties_or_default_def)
  have run: "for_prop_in env el label_map ?ps w = (r, w')"
    using print_css_properties_run(1)[OF assms] by (simp only: d)
  from for_prop_in_run[OF run] obtain vs where
    len: "length vs \<le> length ?ps" and
    pr: "printed w' = printed w @ zip (map (label_for label_map) ?ps) vs" and
    cs: "calls w' = calls w @ map (Value_of_css_property el)
           (take (case r of Inl x \<Rightarrow> Suc (length vs) | Inr u \<Rightarrow> length vs) ?ps)" and
    r: "case r of Inl x \<Rightarrow> length vs < length ?ps | Inr u \<Rightarrow> length vs = length ?ps"
    by blast
  let ?k = "case r of Inl x \<Rightarrow> Suc (length vs) | Inr u \<Rightarrow> length vs"
  have ne: "new_entries w w' = zip (map (label_for label_map) ?ps) vs"
    using pr by (rule new_entries_append)
  have nc: "new_calls w w' = map (Value_of_css_property el) (take ?k ?ps)"
    using cs by (rule new_calls_append)
  have k: "?k \<le> length ?ps" "1 \<le> ?k"
    using r by (cases r; simp)+
  have lc: "length (new_calls w w') = ?k"
    using k(1) by (simp only: nc length_map length_take min_def) simp
  have le: "length (new_entries w w') = length vs"
    using len by (simp add: ne)
  have labels: "map fst (new_entries w w') =
      map (label_as_specified label_map) (take (length (new_entries w w')) ?ps)"
  proof -
    have "map fst (new_entries w w') = map (label_for label_map) (take (length vs) ?ps)"
      using map_fst_zip_labels [OF len, of "label_for label_map"] by (simp only: ne)
    then have "map fst (new_entries w w') =
        map (label_for label_map) (take (length (new_entries w w')) ?ps)"
      by (simp only: le)
    then show ?thesis by (simp only: label_for_as_specified [abs_def])
  qed
  have calls: "new_calls w w' =
      map (Value_of_css_property el) (take (length (new_calls w w')) ?ps)"
    by (simp only: lc) (rule nc)
  have ends: "case r of
      Inr u \<Rightarrow> length (new_calls w w') = 3 \<and> length (new_entries w w') = 3
    | Inl x \<Rightarrow> length (new_calls w w') = Suc (length (new_entries w w'))
                \<and> length (new_entries w w') < 3"
    using r by (cases r) (simp_all add: lc le)
  have same: "print_css_properties env self el (Some ?ps) label_map w = (r, self', w')"
    using assms by (simp add: print_css_properties_def properties_or_default_def)
  have "calls w' = calls w @ new_calls w w'"
    using cs nc by simp
  moreover have "1 \<le> length (new_calls w w')"
    using k(2) by (simp only: lc)
  moreover have "printed w' = printed w @ new_entries w w'"
    using pr ne by simp
  ultimately show ?thesis
    using d calls labels ends same by blast
qed

theorem print_css_properties_default_list_witness:
  "print_css_properties stub_browser (LoginPage_init 0) 7 None None fresh_world =
     (Inr (), LoginPage_init 0,
      \<lparr>calls = [Value_of_css_property 7 ''background-color'',
                Value_of_css_property 7 ''color'', Value_of_css_property 7 ''font-size''],
       printed = [(''Background Color'', Some ''rgba(0, 0, 0, 0)''),
                  (''Color'', Some ''rgba(33, 37, 41, 1)''),
                  (''Font Size'', Some ''16px'')]\<rparr>)
   \<and> new_calls fresh_world
        \<lparr>calls = [Value_of_css_property 7 ''background-color'',
                  Value_of_css_property 7 ''color'', Value_of_css_property 7 ''font-size''],
         printed = [(''Background Color'', Some ''rgba(0, 0, 0, 0)''),
                    (''Color'', Some ''rgba(33, 37, 41, 1)''),
                    (''Font Size'', Some ''16px'')]\<rparr> =
       map (Value_of_css_property 7) [''background-color'', ''color'', ''font-size'']"
proof -
  let ?w' = "\<lparr>calls = [Value_of_css_property 7 ''background-color'',
                Value_of_css_property 7 ''color'', Value_of_css_property 7 ''font-size''],
       printed = [(''Background Color'', Some ''rgba(0, 0, 0, 0)''),
                  (''Color'', Some ''rgba(33, 37, 41, 1)''),
                  (''Font Size'', Some ''16px'')]\<rparr>"
  have run: "print_css_properties stub_browser (LoginPage_init 0) 7 None None fresh_world =
      (Inr (), LoginPage_init 0, ?w')"
    by (simp add: evaluation stub_browser_def)
  note default = print_css_properties_default_list [OF run]
  from default have "case (Inr () :: exc + unit) of
      Inr u \<Rightarrow> length (new_calls fresh_world ?w') = 3 \<and> length (new_entries fresh_world ?w') = 3
    | Inl x \<Rightarrow> length (new_calls fresh_world ?w') = Suc (length (new_entries fresh_world ?w'))
                \<and> length (new_entries fresh_world ?w') < 3"
    by blast
  then have three: "length (new_calls fresh_world ?w') = 3"
    by simp
  from default have "new_calls fresh_world ?w' =
      map (Value_of_css_property 7)
        (take (length (new_calls fresh_world ?w')) [''background-color'', ''color'', ''font-size''])"
    by blast
  then have "new_calls fresh_world ?w' =
      map (Value_of_css_property 7) [''background-color'', ''color'', ''font-size'']"
    by (simp only: three) simp
  then show ?thesis using run by simp
qed


subsection \<open>The empty label map\<close>

text \<open>
  C10. With the empty label map the method does exactly what it does with no label
  map; in both runs the label of a property is its title-cased words.
\<close>

theorem print_css_properties_empty_label_map:
  "print_css_properties env self el properties (Some []) w =
     print_css_properties env self el properties None w
   \<and> label_for (Some []) prop = title_cased_words prop
   \<and> label_for None prop = title_cased_words prop"
proof -
  have "for_prop_in env el (Some []) (properties_or_default properties) w =
        for_prop_in env el None (properties_or_default properties) w"
    by (rule for_prop_in_labels_cong) (simp add: label_for_def)
  then show ?thesis
    by (simp add: print_css_properties_eq label_for_def str_title_words)
qed

subsection \<open>login\<close>

text \<open>
  C5. When the browser answers each of the six calls, \<open>login\<close> finds the username
  field, sends it the username, finds the password field, sends it the password, finds
  the submit control and clicks it, in this order and with nothing in between, and
  returns a shop page made from the driver handle of the login page.
\<close>

theorem login_calls_in_order:
  assumes "on_find_element env (calls w) (driver self) (username self) = Inr e1"
    and "on_send_keys env
           (calls w @ [Find_element (driver self) (fst (username self)) (snd (username self))])
           e1 usr = Inr ()"
    and "on_find_element env
           (calls w @ [Find_element (driver self) (fst (username self)) (snd (username self)),
                       Send_keys e1 usr])
           (driver self) (password self) = Inr e2"
    and "on_send_keys env
           (calls w @ [Find_element (driver self) (fst (username self)) (snd (username self)),
                       Send_keys e1 usr,
                       Find_element (driver self) (fst (password self)) (snd (password self))])
           e2 pwd = Inr ()"
    and "on_find_element env
           (calls w @ [Find_element (driver self) (fst (username self)) (snd (username self)),
                       Send_keys e1 usr,
                       Find_element (driver self) (fst (password self)) (snd (password self)),
                       Send_keys e2 pwd])
           (driver self) (submit self) = Inr e3"
    and "on_click env
           (calls w @ [Find_element (driver self) (fst (username self)) (snd (username self)),
                       Send_keys e1 usr,
                       Find_element (driver self) (fst (password self)) (snd (password self)),
                       Send_keys e2 pwd,
                       Find_element (driver self) (fst (submit self)) (snd (submit self))])
           e3 = Inr ()"
  shows "login env self usr pwd w =
           (Inr (ShopPage_init (driver self)), self,
            w\<lparr>calls := calls w @
               [Find_element (driver self) (fst (username self)) (snd (username self)),
                Send_keys e1 usr,
                Find_element (driver self) (fst (password self)) (snd (password self)),
                Send_keys e2 pwd,
                Find_element (driver self) (fst (submit self)) (snd (submit self)),
                Click e3]\<rparr>)
       \<and> shop_driver (ShopPage_init (driver self)) = driver self"
  using assms
  by (simp add: login_def find_element_def send_keys_def click_def ShopPage_init_def)

theorem login_calls_in_order_witness:
  "login stub_browser (LoginPage_init 4) ''alice'' ''secret'' fresh_world =
     (Inr \<lparr>shop_driver = 4\<rparr>, LoginPage_init 4,
      \<lparr>calls = [Find_element 4 ID ''username'', Send_keys 1 ''alice'',
                Find_element 4 ID ''password'', Send_keys 2 ''secret'',
                Find_element 4 ID ''signInBtn'', Click 3],
       printed = []\<rparr>)"
proof -
  let ?self = "LoginPage_init 4"
  have f: "driver ?self = 4" "username ?self = (ID, ''username'')"
    "password ?self = (ID, ''password'')" "submit ?self = (ID, ''signInBtn'')"
    by (simp_all add: LoginPage_init_def BrowserUtils_init_def browser_utils.extend_def
          login_page.fields_def)
  have 1: "on_find_element stub_browser (calls fresh_world) (driver ?self) (username ?self)
      = Inr 1"
    by (simp add: f stub_browser_def)
  have 2: "on_send_keys stub_browser h 1 ''alice'' = Inr ()" for h
    by (simp add: stub_browser_def)
  have 3: "on_find_element stub_browser h (driver ?self) (password ?self) = Inr 2" for h
    by (simp add: f stub_browser_def)
  have 4: "on_send_keys stub_browser h 2 ''secret'' = Inr ()" for h
    by (simp add: stub_browser_def)
  have 5: "on_find_element stub_browser h (driver ?self) (submit ?self) = Inr 3" for h
    by (simp add: f stub_browser_def)
  have 6: "on_click stub_browser h 3 = Inr ()" for h
    by (simp add: stub_browser_def)
  from login_calls_in_order [OF 1 2 3 4 5 6]
  show ?thesis by (simp add: f fresh_world_def ShopPage_init_def)
qed

text \<open>
  Every way \<open>login\<close> can end: it makes at most six calls, a call before the last one
  did not raise, and the last one raised exactly when \<open>login\<close> raises, the same exception.
\<close>

lemma login_outcomes:
  assumes "login env self usr pwd w = (r, self', w')"
  shows "self' = self \<and> printed w' = printed w \<and> calls w' = calls w @ new_calls w w'
       \<and> length (new_calls w w') \<le> 6
       \<and> (\<forall>i<length (new_calls w w').
             raised env (calls w @ take i (new_calls w w')) (new_calls w w' ! i) =
               (if Suc i = length (new_calls w w') then
                  (case r of Inl x \<Rightarrow> Some x | Inr sp \<Rightarrow> None)
                else None))"
proof -
  let ?d = "driver self"
  let ?c1 = "Find_element ?d (fst (username self)) (snd (username self))"
  let ?c3 = "Find_element ?d (fst (password self)) (snd (password self))"
  let ?c5 = "Find_element ?d (fst (submit self)) (snd (submit self))"
  show ?thesis
  proof (cases "on_find_element env (calls w) ?d (username self)")
    case (Inl x)
    with assms have "r = Inl x" "self' = self" "w' = w\<lparr>calls := calls w @ [?c1]\<rparr>"
      by (auto simp: login_def find_element_def)
    then show ?thesis using Inl by (simp add: new_calls_def)
  next
    case e1: (Inr e1)
    show ?thesis
    proof (cases "on_send_keys env (calls w @ [?c1]) e1 usr")
      case (Inl x)
      with assms e1 have "r = Inl x" "self' = self"
        "w' = w\<lparr>calls := calls w @ [?c1, Send_keys e1 usr]\<rparr>"
        by (auto simp: login_def find_element_def send_keys_def)
      then show ?thesis using e1 Inl by (simp add: new_calls_def less_Suc_eq)
    next
      case s1: (Inr u1)
      show ?thesis
      proof (cases "on_find_element env (calls w @ [?c1, Send_keys e1 usr]) ?d (password self)")
        case (Inl x)
        with assms e1 s1 have "r = Inl x" "self' = self"
          "w' = w\<lparr>calls := calls w @ [?c1, Send_keys e1 usr, ?c3]\<rparr>"
          by (auto simp: login_def find_element_def send_keys_def)
        then show ?thesis using e1 s1 Inl by (simp add: new_calls_def less_Suc_eq)
      next
        case e2: (Inr e2)
        show ?thesis
        proof (cases "on_send_keys env (calls w @ [?c1, Send_keys e1 usr, ?c3]) e2 pwd")
          case (Inl x)
          with assms e1 s1 e2 have "r = Inl x" "self' = self"
            "w' = w\<lparr>calls := calls w @ [?c1, Send_keys e1 usr, ?c3, Send_keys e2 pwd]\<rparr>"
            by (auto simp: login_def find_element_def send_keys_def)
          then show ?thesis using e1 s1 e2 Inl by (simp add: new_calls_def less_Suc_eq)
        next
          case s2: (Inr u2)
          show ?thesis
          proof (cases "on_find_element env
                   (calls w @ [?c1, Send_keys e1 usr, ?c3, Send_keys e2 pwd]) ?d (submit self)")
            case (Inl x)
            with assms e1 s1 e2 s2 have "r = Inl x" "self' = self"
              "w' = w\<lparr>calls := calls w @
                 [?c1, Send_keys e1 usr, ?c3, Send_keys e2 pwd, ?c5]\<rparr>"
              by (auto simp: login_def find_element_def send_keys_def)
            then show ?thesis using e1 s1 e2 s2 Inl by (simp add: new_calls_def less_Suc_eq)
          next
            case e3: (Inr e3)
            show ?thesis
            proof (cases "on_click env
                     (calls w @ [?c1, Send_keys e1 usr, ?c3, Send_keys e2 pwd, ?c5]) e3")
              case (Inl x)
              with assms e1 s1 e2 s2 e3 have "r = Inl x" "self' = self"
                "w' = w\<lparr>calls := calls w @
                   [?c1, Send_keys e1 usr, ?c3, Send_keys e2 pwd, ?c5, Click e3]\<rparr>"
                by (auto simp: login_def find_element_def send_keys_def click_def)
              then show ?thesis using e1 s1 e2 s2 e3 Inl
                by (simp add: new_calls_def less_Suc_eq)
            next
              case c: (Inr u3)
              with assms e1 s1 e2 s2 e3 have "r = Inr (ShopPage_init ?d)" "self' = self"
                "w' = w\<lparr>calls := calls w @
                   [?c1, Send_keys e1 usr, ?c3, Send_keys e2 pwd, ?c5, Click e3]\<rparr>"
                by (auto simp: login_def find_element_def send_keys_def click_def)
              then show ?thesis using e1 s1 e2 s2 e3 c
                by (simp add: new_calls_def less_Suc_eq)
            qed
          qed
        qed
      qed
    qed
  qed
qed

text \<open>
  C6. When a call that \<open>login\<close> makes to the browser raises, \<open>login\<close> raises the
  same exception; that call is the last thing it did, and no shop page is returned.
\<close>

theorem login_propagates:
  assumes "login env self usr pwd w = (r, self', w')"
    and "i < length (new_calls w w')"
    and "raised env (calls w @ take i (new_calls w w')) (new_calls w w' ! i) = Some x"
  shows "r = Inl x \<and> Suc i = length (new_calls w w')
       \<and> calls w' = calls w @ new_calls w w' \<and> self' = self"
proof -
  from login_outcomes [OF assms(1)] have
    cs: "calls w' = calls w @ new_calls w w'" and self: "self' = self" and
    all: "\<forall>i<length (new_calls w w').
             raised env (calls w @ take i (new_calls w w')) (new_calls w w' ! i) =
               (if Suc i = length (new_calls w w') then
                  (case r of Inl x \<Rightarrow> Some x | Inr sp \<Rightarrow> None)
                else None)"
    by blast+
  from all assms(2,3) have
    "(if Suc i = length (new_calls w w') then
        (case r of Inl x \<Rightarrow> Some x | Inr sp \<Rightarrow> None) else None) = Some x"
    by simp
  then have "Suc i = length (new_calls w w')" "r = Inl x"
    by (auto split: if_splits sum.splits)
  then show ?thesis using cs self by simp
qed

theorem login_propagates_witness:
  "login no_password_browser (LoginPage_init 4) ''alice'' ''secret'' fresh_world =
     (Inl (Exception_instance ''NoSuchElementException''), LoginPage_init 4,
      \<lparr>calls = [Find_element 4 ID ''username'', Send_keys 1 ''alice'',
                Find_element 4 ID ''password''],
       printed = []\<rparr>)
   \<and> raised no_password_browser [Find_element 4 ID ''username'', Send_keys 1 ''alice'']
       (Find_element 4 ID ''password'') = Some (Exception_instance ''NoSuchElementException'')"
proof -
  let ?w' = "\<lparr>calls = [Find_element 4 ID ''username'', Send_keys 1 ''alice'',
                Find_element 4 ID ''password''],
       printed = []\<rparr>"
  have run: "login no_password_browser (LoginPage_init 4) ''alice'' ''secret'' fresh_world =
     (Inl (Exception_instance ''NoSuchElementException''), LoginPage_init 4, ?w')"
    by (simp add: evaluation no_password_browser_def stub_browser_def)
  have i: "2 < length (new_calls fresh_world ?w')"
    by (simp add: new_calls_def fresh_world_def)
  have raise: "raised no_password_browser
      (calls fresh_world @ take 2 (new_calls fresh_world ?w')) (new_calls fresh_world ?w' ! 2)
      = Some (Exception_instance ''NoSuchElementException'')"
    by (simp add: new_calls_def fresh_world_def no_password_browser_def)
  from login_propagates [OF run i raise] show ?thesis
    using run raise by (simp add: new_calls_def fresh_world_def)
qed

subsection \<open>The fields of a login page\<close>

lemma invoke_self: "fst (invoke env m (self, w)) = self"
proof (cases m)
  case (Login usr pwd)
  obtain r self' w' where run: "login env self usr pwd w = (r, self', w')"
    by (cases "login env self usr pwd w")
  from login_outcomes [OF run] have "self' = self" by blast
  then show ?thesis using Login run by simp
next
  case GetPageTitle
  then show ?thesis by (simp add: getPageTitle_def split: prod.splits)
next
  case (PrintCssProperties el properties label_map)
  then show ?thesis by (simp add: print_css_properties_eq)
qed

lemma fold_invoke_self: "fst (fold (invoke env) ms (self, w)) = self"
proof (induction ms arbitrary: w)
  case Nil
  show ?case by simp
next
  case (Cons m ms)
  obtain self' w' where step: "invoke env m (self, w) = (self', w')"
    by (cases "invoke env m (self, w)")
  then have "self' = self" using invoke_self [of env m self w] by simp
  then show ?case using step Cons.IH [of w'] by simp
qed

text \<open>
  C7. A login page is constructed with the locators \<open>(ID, username)\<close>,
  \<open>(ID, password)\<close>, \<open>(ID, signInBtn)\<close> and the driver handle it is given, and after
  any sequence of \<open>login\<close>, \<open>getPageTitle\<close> and \<open>print_css_properties\<close> calls,
  whatever they return or raise, the page object has the fields it had before.
\<close>

theorem login_page_fields_fixed:
  "username (LoginPage_init d) = (ID, ''username'')
   \<and> password (LoginPage_init d) = (ID, ''password'')
   \<and> submit (LoginPage_init d) = (ID, ''signInBtn'')
   \<and> driver (LoginPage_init d) = d
   \<and> fst (fold (invoke env) ms (self, w)) = self"
  by (simp add: fold_invoke_self LoginPage_init_def BrowserUtils_init_def
        browser_utils.extend_def login_page.fields_def)

subsection \<open>The page title\<close>

text \<open>
  C8. \<open>getPageTitle\<close> reads the title of the page object's driver once and returns
  what the read gave, as it is (or raises what the read raised).
\<close>

theorem getPageTitle_returns_title:
  "getPageTitle env self w =
     (on_title env (calls w) (driver self), self, w\<lparr>calls := calls w @ [Title (driver self)]\<rparr>)"
  by (simp add: getPageTitle_def driver_title_def)

end
